theory Spec2Isabelle
  imports Main
begin

section \<open>A shell running commands in serial or in parallel (shell.cpp)\<close>

text \<open>
  The program reads lines, splits each into words, and either stops (\<open>exit\<close>), runs the
  lines of a file (\<open>SERIAL f\<close>, \<open>PARALLEL f\<close>) or forks a process for the command.
  Its effects are modelled as a trace of events appended to a world; the streams it reads
  are values passed in and returned.
\<close>

subsection \<open>Characters and strings\<close>

abbreviation (input) DQUOTE :: char where "DQUOTE \<equiv> CHR 0x22"
abbreviation (input) BSLASH :: char where "BSLASH \<equiv> CHR 0x5C"
abbreviation (input) NL :: char where "NL \<equiv> CHR 0x0A"

text \<open>\<open>std::isspace\<close> in the default locale: space, \<open>\t\<close>, \<open>\n\<close>, \<open>\v\<close>, \<open>\f\<close>, \<open>\r\<close>.\<close>

definition isspace :: "char \<Rightarrow> bool" where
  "isspace c \<longleftrightarrow> c = CHR 0x20 \<or> c = CHR 0x09 \<or> c = CHR 0x0A \<or> c = CHR 0x0B \<or> c = CHR 0x0C \<or> c = CHR 0x0D"

type_synonym StrVec = "string list"
type_synonym IntVec = "int list"

subsection \<open>split: words of a line, read with \<open>is >> std::quoted(word)\<close>\<close>

text \<open>
  The extraction of \<open>std::quoted\<close> after an opening delimiter: with \<open>skipws\<close> off,
  characters are appended until an unescaped \<open>"\<close>; a backslash is dropped and the
  character after it appended. When the input ends first the stream fails (\<open>None\<close>).
  On success the result is the word and the rest of the input.
\<close>

fun read_quoted :: "string \<Rightarrow> string \<Rightarrow> (string \<times> string) option" where
  "read_quoted acc [] = None"
| "read_quoted acc (c # cs) =
     (if c = BSLASH then
        (case cs of
           [] \<Rightarrow> None
         | d # ds \<Rightarrow> read_quoted (acc @ [d]) ds)
      else if c = DQUOTE then Some (acc, cs)
      else read_quoted (acc @ [c]) cs)"

text \<open>
  The loop \<open>while (is >> std::quoted(word)) words.push_back(word)\<close>. Each extraction skips
  leading whitespace and reads one character: at the end of the input the stream fails and
  the loop ends; a \<open>"\<close> starts a quoted word; any other character is put back and a
  whitespace-delimited word is read with \<open>is >> word\<close>.
\<close>

function split_while :: "string \<Rightarrow> StrVec \<Rightarrow> StrVec" where
  "split_while s words =
     (case dropWhile isspace s of
        [] \<Rightarrow> words
      | c # cs \<Rightarrow>
          if c = DQUOTE then
            (case read_quoted [] cs of
               None \<Rightarrow> words
             | Some (word, rest) \<Rightarrow> split_while rest (words @ [word]))
          else split_while (dropWhile (\<lambda>x. \<not> isspace x) (c # cs))
                 (words @ [takeWhile (\<lambda>x. \<not> isspace x) (c # cs)]))"
  by pat_completeness auto

lemma read_quoted_shorter: "read_quoted acc s = Some (w, r) \<Longrightarrow> length r < length s"
  by (induction acc s rule: read_quoted.induct) (fastforce split: if_splits list.splits)+

lemma length_dropWhile_cons:
  assumes "dropWhile P s = c # cs"
  shows "length cs < length s"
proof -
  have "length (dropWhile P s) \<le> length s" by (rule length_dropWhile_le)
  with assms show ?thesis by simp
qed

lemma split_quoted_shorter:
  "dropWhile isspace s = c # cs \<Longrightarrow> read_quoted [] cs = Some (word, rest) \<Longrightarrow> length rest < length s"
  using read_quoted_shorter [of "[]" cs word rest] length_dropWhile_cons [of isspace s c cs]
  by linarith

lemma split_bare_shorter:
  assumes "dropWhile isspace s = c # cs"
  shows "length (dropWhile (\<lambda>x. \<not> isspace x) (c # cs)) < length s"
proof -
  have "\<not> isspace c"
    using hd_dropWhile [of isspace s] assms by simp
  then have "dropWhile (\<lambda>x. \<not> isspace x) (c # cs) = dropWhile (\<lambda>x. \<not> isspace x) cs"
    by simp
  then have "length (dropWhile (\<lambda>x. \<not> isspace x) (c # cs)) \<le> length cs"
    by (simp add: length_dropWhile_le)
  with length_dropWhile_cons [OF assms] show ?thesis by linarith
qed

termination split_while
proof (relation "measure (\<lambda>(s, words). length s)", goal_cases)
  case 1
  show ?case by simp
next
  case (2 s words c cs x2 word rest)
  from 2(3,4) have "read_quoted [] cs = Some (word, rest)" by (simp only:)
  from split_quoted_shorter [OF 2(1) this] show ?case by (simp only: in_measure prod.case)
next
  case (3 s words c cs)
  from split_bare_shorter [OF 3(1)] show ?case by (simp only: in_measure prod.case)
qed

declare split_while.simps [simp del]

definition split :: "string \<Rightarrow> StrVec" where
  "split line = split_while line []"

text \<open>\<open>checkIgnore\<close>: \<open>line.empty() || line[0][0] == '#'\<close>. The first word may be empty
  (from \<open>""\<close>); \<open>line[0][0]\<close> is then the string's terminating zero, which is not \<open>#\<close>.\<close>

fun checkIgnore :: "StrVec \<Rightarrow> bool" where
  "checkIgnore [] = True"
| "checkIgnore ([] # _) = False"
| "checkIgnore ((c # _) # _) = (c = CHR ''#'')"

subsection \<open>Streams, processes and the trace of effects\<close>

text \<open>An output stream is \<open>std::cout\<close> or some other stream.\<close>

datatype sink = StdOut | Sink nat

text \<open>
  What the program does to the outside, in order: text written to a stream, a call of
  \<open>std::getline\<close>, the opening of a file, \<open>forkNexec\<close> of an argument vector giving a
  process id, \<open>ChildProcess::wait\<close> on a process id, and \<open>waitpid\<close> on a process id.
\<close>

datatype event =
    Write sink string
  | Getline
  | Open string
  | Fork StrVec int
  | Wait int
  | Waitpid int

record world =
  trace :: "event list"
  nforks :: nat

definition emit :: "event list \<Rightarrow> world \<Rightarrow> world" where
  "emit evs w = w\<lparr>trace := trace w @ evs\<rparr>"

text \<open>
  The parts of the run that the source does not decide. \<open>ChildProcess.h\<close> is not among the
  sources: \<open>forkNexec_pid k argv\<close> is the process id returned by the \<open>k\<close>-th call of
  \<open>forkNexec\<close> (counted from 0), \<open>cp_wait pid\<close> the exit code returned by
  \<open>ChildProcess::wait\<close> for that child, \<open>waitpid_status pid\<close> the status stored by
  \<open>waitpid\<close>. \<open>files path\<close> is the content of a file that can be opened, \<open>None\<close> when it
  cannot.
\<close>

record env =
  files :: "string \<Rightarrow> string option"
  forkNexec_pid :: "nat \<Rightarrow> StrVec \<Rightarrow> int"
  cp_wait :: "int \<Rightarrow> int"
  waitpid_status :: "int \<Rightarrow> int"

text \<open>An input stream: the characters not yet read and the \<open>eofbit\<close> and \<open>failbit\<close>.\<close>

record istream =
  buf :: string
  eofbit :: bool
  failbit :: bool

definition ifstream :: "env \<Rightarrow> string \<Rightarrow> istream" where
  "ifstream e path =
     (case files e path of
        None \<Rightarrow> \<lparr>buf = [], eofbit = False, failbit = True\<rparr>
      | Some content \<Rightarrow> \<lparr>buf = content, eofbit = False, failbit = False\<rparr>)"

text \<open>
  \<open>std::getline(is, line)\<close>: on a stream that is not good it sets \<open>failbit\<close>; otherwise it
  reads up to and without the next newline; reaching the end of the input sets \<open>eofbit\<close>,
  and \<open>failbit\<close> too when nothing at all was read. The line is \<open>None\<close> when the stream
  has failed (the loop condition is false).
\<close>

definition getline :: "istream \<Rightarrow> istream \<times> string option" where
  "getline ins =
     (if eofbit ins \<or> failbit ins then (ins\<lparr>failbit := True\<rparr>, None)
      else if buf ins = [] then (ins\<lparr>eofbit := True, failbit := True\<rparr>, None)
      else if NL \<in> set (buf ins)
      then (ins\<lparr>buf := tl (dropWhile (\<lambda>c. c \<noteq> NL) (buf ins))\<rparr>,
            Some (takeWhile (\<lambda>c. c \<noteq> NL) (buf ins)))
      else (ins\<lparr>buf := [], eofbit := True\<rparr>, Some (buf ins)))"

subsection \<open>Printing an \<open>int\<close>\<close>

definition digit :: "nat \<Rightarrow> char" where
  "digit d = ''0123456789'' ! d"

function show_nat :: "nat \<Rightarrow> string" where
  "show_nat n = (if n < 10 then [digit n] else show_nat (n div 10) @ [digit (n mod 10)])"
  by pat_completeness auto
termination
  by (relation "measure id") auto

declare show_nat.simps [simp del]

definition show_int :: "int \<Rightarrow> string" where
  "show_int i = (if i < 0 then CHR ''-'' # show_nat (nat (- i)) else show_nat (nat i))"

subsection \<open>Running commands\<close>

text \<open>
  The loop that prints the command, in both \<open>runSerialCommand\<close> and \<open>runParallelCommand\<close>:
  \<open>for (word : command) { os << word; if (word != command.back()) os << " "; }\<close>.
\<close>

fun print_words :: "sink \<Rightarrow> string \<Rightarrow> StrVec \<Rightarrow> event list" where
  "print_words os back [] = []"
| "print_words os back (word # rest) =
     (Write os word # (if word \<noteq> back then [Write os '' ''] else [])) @ print_words os back rest"

definition print_command :: "sink \<Rightarrow> StrVec \<Rightarrow> event list" where
  "print_command os command =
     Write os ''Running: '' # print_words os (last command) command @ [Write os [NL]]"

definition forkNexec :: "env \<Rightarrow> StrVec \<Rightarrow> world \<Rightarrow> int \<times> world" where
  "forkNexec e command w =
     (let pid = forkNexec_pid e (nforks w) command
      in (pid, (emit [Fork command pid] w)\<lparr>nforks := Suc (nforks w)\<rparr>))"

definition runSerialCommand :: "env \<Rightarrow> sink \<Rightarrow> StrVec \<Rightarrow> world \<Rightarrow> world" where
  "runSerialCommand e os command w =
     (let w1 = emit (print_command os command) w;
          (pid, w2) = forkNexec e command w1;
          exitCode = cp_wait e pid;
          w3 = emit [Wait pid] w2
      in emit [Write os ''Exit code: '', Write os (show_int exitCode), Write os [NL]] w3)"

definition runParallelCommand :: "env \<Rightarrow> sink \<Rightarrow> StrVec \<Rightarrow> IntVec \<Rightarrow> world \<Rightarrow> IntVec \<times> world" where
  "runParallelCommand e os command parPids w =
     (let w1 = emit (print_command os command) w;
          (pid, w2) = forkNexec e command w1
      in (parPids @ [pid], w2))"

fun waitForParalellCommands :: "env \<Rightarrow> sink \<Rightarrow> IntVec \<Rightarrow> world \<Rightarrow> world" where
  "waitForParalellCommands e os [] w = w"
| "waitForParalellCommands e os (pid # parPids) w =
     waitForParalellCommands e os parPids
       (emit [Waitpid pid, Write os ''Exit code: '', Write os (show_int (waitpid_status e pid)),
              Write os [NL]] w)"

subsection \<open>The session: \<open>processFirstWord\<close> and \<open>processCmds\<close>\<close>

text \<open>
  \<open>OutOfRange\<close>: the source reads an element of the argument vector that is not there
  (undefined behaviour). \<open>OutOfFuel\<close>: files nested deeper than the given bound, which
  stands for a run that does not return (a file may name itself).
\<close>

datatype error = OutOfRange | OutOfFuel

text \<open>
  \<open>processFirstWord\<close> returns whether the line is a command to run. \<open>processCmds_while\<close>
  is the \<open>while\<close> loop of \<open>processCmds\<close>, with the local \<open>parPids\<close> as an argument; its
  result is the stream, \<open>parPids\<close> and the world when the loop is left. The first argument
  bounds the depth of nested files.
\<close>

function processFirstWord :: "nat \<Rightarrow> env \<Rightarrow> StrVec \<Rightarrow> world \<Rightarrow> error + bool \<times> world"
  and processCmds_while ::
    "nat \<Rightarrow> env \<Rightarrow> istream \<Rightarrow> sink \<Rightarrow> bool \<Rightarrow> string \<Rightarrow> IntVec \<Rightarrow> world
       \<Rightarrow> error + istream \<times> IntVec \<times> world"
  and processCmds ::
    "nat \<Rightarrow> env \<Rightarrow> istream \<Rightarrow> sink \<Rightarrow> bool \<Rightarrow> string \<Rightarrow> world \<Rightarrow> error + istream \<times> world"
where
  "processFirstWord fuel e line w =
     (case line of
        [] \<Rightarrow> Inl OutOfRange
      | first # args \<Rightarrow>
          if first = ''exit'' then Inr (False, w)
          else if first = ''SERIAL'' then
            (case args of
               [] \<Rightarrow> Inl OutOfRange
             | path # _ \<Rightarrow>
                 (case fuel of
                    0 \<Rightarrow> Inl OutOfFuel
                  | Suc fuel' \<Rightarrow>
                      (case processCmds fuel' e (ifstream e path) StdOut False [] (emit [Open path] w) of
                         Inl err \<Rightarrow> Inl err
                       | Inr (in', w') \<Rightarrow> Inr (False, w'))))
          else if first = ''PARALLEL'' then
            (case args of
               [] \<Rightarrow> Inl OutOfRange
             | path # _ \<Rightarrow>
                 (case fuel of
                    0 \<Rightarrow> Inl OutOfFuel
                  | Suc fuel' \<Rightarrow>
                      (case processCmds fuel' e (ifstream e path) StdOut True [] (emit [Open path] w) of
                         Inl err \<Rightarrow> Inl err
                       | Inr (in', w') \<Rightarrow> Inr (False, w'))))
          else Inr (True, w))"
| "processCmds_while fuel e ins os parMode prompt parPids w =
     (case getline ins of
        (ins', None) \<Rightarrow> Inr (ins', parPids, emit [Write os prompt, Getline] w)
      | (ins', Some line) \<Rightarrow>
          if checkIgnore (split line)
          then processCmds_while fuel e ins' os parMode prompt parPids (emit [Write os prompt, Getline] w)
          else
            (case processFirstWord fuel e (split line) (emit [Write os prompt, Getline] w) of
               Inl err \<Rightarrow> Inl err
             | Inr (cmd, w1) \<Rightarrow>
                 if \<not> cmd \<or> eofbit ins' then Inr (ins', parPids, w1)
                 else if \<not> parMode
                 then processCmds_while fuel e ins' os parMode prompt parPids
                        (runSerialCommand e os (split line) w1)
                 else
                   (case runParallelCommand e os (split line) parPids w1 of
                      (parPids', w2) \<Rightarrow> processCmds_while fuel e ins' os parMode prompt parPids' w2)))"
| "processCmds fuel e ins os parMode prompt w =
     (case processCmds_while fuel e ins os parMode prompt [] w of
        Inl err \<Rightarrow> Inl err
      | Inr (ins', parPids, w') \<Rightarrow>
          Inr (ins', if parMode then waitForParalellCommands e StdOut parPids w' else w'))"
  by pat_completeness simp_all

lemma length_tl_dropWhile:
  assumes "x \<in> set s"
  shows "length (tl (dropWhile (\<lambda>c. c \<noteq> x) s)) < length s"
proof -
  from assms have "dropWhile (\<lambda>c. c \<noteq> x) s \<noteq> []" by (simp add: dropWhile_eq_Nil_conv)
  then obtain c cs where d: "dropWhile (\<lambda>c. c \<noteq> x) s = c # cs" by (cases "dropWhile (\<lambda>c. c \<noteq> x) s") auto
  from length_dropWhile_cons [OF d] d show ?thesis by simp
qed

lemma getline_shorter:
  assumes "getline ins = (ins', Some line)"
  shows "length (buf ins') < length (buf ins)"
proof (cases "NL \<in> set (buf ins)")
  case True
  with assms have "ins' = ins\<lparr>buf := tl (dropWhile (\<lambda>c. c \<noteq> NL) (buf ins))\<rparr>"
    by (simp add: getline_def split: if_splits)
  then have "buf ins' = tl (dropWhile (\<lambda>c. c \<noteq> NL) (buf ins))" by simp
  with length_tl_dropWhile [OF True] show ?thesis by simp
next
  case False
  with assms have "ins' = ins\<lparr>buf := [], eofbit := True\<rparr> \<and> buf ins \<noteq> []"
    by (simp add: getline_def split: if_splits)
  then have "buf ins' = [] \<and> buf ins \<noteq> []" by simp
  then show ?thesis by simp
qed

termination processFirstWord
proof (relation "(\<lambda>x. case x of Inl (fuel, e, line, w) \<Rightarrow> fuel
                            | Inr (Inl (fuel, e, ins, os, parMode, prompt, parPids, w)) \<Rightarrow> fuel
                            | Inr (Inr (fuel, e, ins, os, parMode, prompt, w)) \<Rightarrow> fuel)
                   <*mlex*>
                   measure (\<lambda>x. case x of Inl (fuel, e, line, w) \<Rightarrow> 0
                            | Inr (Inl (fuel, e, ins, os, parMode, prompt, parPids, w)) \<Rightarrow> Suc (length (buf ins))
                            | Inr (Inr (fuel, e, ins, os, parMode, prompt, w)) \<Rightarrow> Suc (Suc (length (buf ins))))",
       goal_cases)
  case 1
  show ?case by (simp add: wf_mlex)
next
  case 2
  then show ?case by (simp add: mlex_less)
next
  case 3
  then show ?case by (simp add: mlex_less)
next
  case (4 fuel e ins os parMode prompt parPids w ins' y line)
  from 4(1,2) have "getline ins = (ins', Some line)" by simp
  then have "length (buf ins') < length (buf ins)" by (rule getline_shorter)
  then show ?case by (simp add: mlex_less mlex_leq)
next
  case (5 fuel e ins os parMode prompt parPids w ins' y line)
  show ?case by (simp add: mlex_less mlex_leq)
next
  case (6 fuel e ins os parMode prompt parPids w ins' y line)
  from 6(1,2) have "getline ins = (ins', Some line)" by simp
  then have "length (buf ins') < length (buf ins)" by (rule getline_shorter)
  then show ?case by (simp add: mlex_less mlex_leq)
next
  case (7 fuel e ins os parMode prompt parPids w ins' y line)
  from 7(1,2) have "getline ins = (ins', Some line)" by simp
  then have "length (buf ins') < length (buf ins)" by (rule getline_shorter)
  then show ?case by (simp add: mlex_less mlex_leq)
next
  case 8
  show ?case by (simp add: mlex_less mlex_leq)
qed

declare processFirstWord.simps [simp del] processCmds_while.simps [simp del] processCmds.simps [simp del]

subsection \<open>Vocabulary of the properties\<close>

text \<open>A stream over a given text on which nothing has been read yet.\<close>

abbreviation fresh :: "string \<Rightarrow> istream" where
  "fresh s \<equiv> \<lparr>buf = s, eofbit = False, failbit = False\<rparr>"

text \<open>
  An argument vector that the session runs as a command: \<open>checkIgnore\<close> is false and
  \<open>processFirstWord\<close> compares its first word with none of its three keywords. A valid
  command line is a line (without newline) whose words are such a vector.
\<close>

definition is_command :: "StrVec \<Rightarrow> bool" where
  "is_command line \<longleftrightarrow>
     \<not> checkIgnore line \<and> hd line \<noteq> ''exit'' \<and> hd line \<noteq> ''SERIAL'' \<and> hd line \<noteq> ''PARALLEL''"

definition valid_line :: "string \<Rightarrow> bool" where
  "valid_line l \<longleftrightarrow> NL \<notin> set l \<and> is_command (split l)"

text \<open>A line after which the loop reads on: it is ignored or run as a command.\<close>

definition continuing_line :: "string \<Rightarrow> bool" where
  "continuing_line l \<longleftrightarrow> NL \<notin> set l \<and> (checkIgnore (split l) \<or> is_command (split l))"

text \<open>Lines as an input text: each line is followed by a newline.\<close>

definition unlines :: "string list \<Rightarrow> string" where
  "unlines ls = concat (map (\<lambda>l. l @ [NL]) ls)"

text \<open>Projections of a trace: the text written to a stream, the processes forked, the
  process ids waited for.\<close>

fun written :: "sink \<Rightarrow> event list \<Rightarrow> string" where
  "written s [] = []"
| "written s (Write s' t # evs) = (if s' = s then t @ written s evs else written s evs)"
| "written s (_ # evs) = written s evs"

fun forks :: "event list \<Rightarrow> (StrVec \<times> int) list" where
  "forks [] = []"
| "forks (Fork argv pid # evs) = (argv, pid) # forks evs"
| "forks (_ # evs) = forks evs"

fun waits :: "event list \<Rightarrow> int list" where
  "waits [] = []"
| "waits (Wait pid # evs) = pid # waits evs"
| "waits (Waitpid pid # evs) = pid # waits evs"
| "waits (_ # evs) = waits evs"

text \<open>
  The serial discipline, checked along a trace with the process that is outstanding:
  a fork only when none is outstanding, a wait only for the outstanding one, a line read
  only when none is outstanding, and none outstanding at the end.
\<close>

fun one_at_a_time :: "int option \<Rightarrow> event list \<Rightarrow> bool" where
  "one_at_a_time out [] = (out = None)"
| "one_at_a_time out (Fork argv pid # evs) = (out = None \<and> one_at_a_time (Some pid) evs)"
| "one_at_a_time out (Wait pid # evs) = (out = Some pid \<and> one_at_a_time None evs)"
| "one_at_a_time out (Waitpid pid # evs) = (out = Some pid \<and> one_at_a_time None evs)"
| "one_at_a_time out (Getline # evs) = (out = None \<and> one_at_a_time out evs)"
| "one_at_a_time out (_ # evs) = one_at_a_time out evs"

text \<open>The events of the sessions over valid command lines, \<open>k\<close> being the number of
  processes forked before.\<close>

fun serial_run :: "env \<Rightarrow> sink \<Rightarrow> string \<Rightarrow> nat \<Rightarrow> string list \<Rightarrow> event list" where
  "serial_run e os prompt k [] = []"
| "serial_run e os prompt k (l # ls) =
     [Write os prompt, Getline] @ print_command os (split l)
     @ [Fork (split l) (forkNexec_pid e k (split l)), Wait (forkNexec_pid e k (split l)),
        Write os ''Exit code: '', Write os (show_int (cp_wait e (forkNexec_pid e k (split l)))),
        Write os [NL]]
     @ serial_run e os prompt (Suc k) ls"

fun parallel_launch :: "env \<Rightarrow> sink \<Rightarrow> string \<Rightarrow> nat \<Rightarrow> string list \<Rightarrow> event list" where
  "parallel_launch e os prompt k [] = []"
| "parallel_launch e os prompt k (l # ls) =
     [Write os prompt, Getline] @ print_command os (split l)
     @ [Fork (split l) (forkNexec_pid e k (split l))]
     @ parallel_launch e os prompt (Suc k) ls"

fun launched_pids :: "env \<Rightarrow> nat \<Rightarrow> string list \<Rightarrow> IntVec" where
  "launched_pids e k [] = []"
| "launched_pids e k (l # ls) = forkNexec_pid e k (split l) # launched_pids e (Suc k) ls"

text \<open>The same for a parallel session over lines of which some are ignored.\<close>

fun launch_or_skip :: "env \<Rightarrow> sink \<Rightarrow> string \<Rightarrow> nat \<Rightarrow> string list \<Rightarrow> event list" where
  "launch_or_skip e os prompt k [] = []"
| "launch_or_skip e os prompt k (l # ls) =
     (if checkIgnore (split l)
      then [Write os prompt, Getline] @ launch_or_skip e os prompt k ls
      else [Write os prompt, Getline] @ print_command os (split l)
           @ [Fork (split l) (forkNexec_pid e k (split l))]
           @ launch_or_skip e os prompt (Suc k) ls)"

fun forked_pids :: "env \<Rightarrow> nat \<Rightarrow> string list \<Rightarrow> IntVec" where
  "forked_pids e k [] = []"
| "forked_pids e k (l # ls) =
     (if checkIgnore (split l) then forked_pids e k ls
      else forkNexec_pid e k (split l) # forked_pids e (Suc k) ls)"

fun drain_events :: "env \<Rightarrow> IntVec \<Rightarrow> event list" where
  "drain_events e [] = []"
| "drain_events e (pid # pids) =
     [Waitpid pid, Write StdOut ''Exit code: '', Write StdOut (show_int (waitpid_status e pid)),
      Write StdOut [NL]] @ drain_events e pids"

text \<open>
  Where the text of a session goes. A session hands over when it opens a nested file or
  starts to wait for its pending processes with \<open>waitpid\<close>: its own events are those
  before the first such event, the later events those from it on. \<open>writes_to s\<close> holds of
  events whose writes all go to the stream \<open>s\<close>.
\<close>

fun hands_over :: "event \<Rightarrow> bool" where
  "hands_over (Open path) = True"
| "hands_over (Waitpid pid) = True"
| "hands_over _ = False"

fun writes_to :: "sink \<Rightarrow> event list \<Rightarrow> bool" where
  "writes_to s [] = True"
| "writes_to s (Write s' t # evs) = (s' = s \<and> writes_to s evs)"
| "writes_to s (_ # evs) = writes_to s evs"

definition own_events :: "event list \<Rightarrow> event list" where
  "own_events evs = takeWhile (\<lambda>ev. \<not> hands_over ev) evs"

definition later_events :: "event list \<Rightarrow> event list" where
  "later_events evs = dropWhile (\<lambda>ev. \<not> hands_over ev) evs"

definition sinks_kept :: "sink \<Rightarrow> event list \<Rightarrow> bool" where
  "sinks_kept os evs \<longleftrightarrow> writes_to os (own_events evs) \<and> writes_to StdOut (later_events evs)"

text \<open>
  Well-formed command lines, after the grammar of the specification: a word is a bare
  token (not empty, without whitespace, not starting with \<open>"\<close>) or a quoted text, written
  between two \<open>"\<close> with a backslash before every \<open>"\<close> and backslash of the text, as
  \<open>std::quoted\<close> writes it; a text without these two characters is written as it is.
  A line is a list of words, each with the whitespace that follows it, which is not empty
  except after the last word.
\<close>

datatype word = Bare string | Quoted string

fun escape :: "string \<Rightarrow> string" where
  "escape [] = []"
| "escape (c # cs) = (if c = DQUOTE \<or> c = BSLASH then BSLASH # c # escape cs else c # escape cs)"

fun render :: "word \<Rightarrow> string" where
  "render (Bare s) = s"
| "render (Quoted s) = DQUOTE # escape s @ [DQUOTE]"

fun text_of :: "word \<Rightarrow> string" where
  "text_of (Bare s) = s"
| "text_of (Quoted s) = s"

fun wf_word :: "word \<Rightarrow> bool" where
  "wf_word (Bare s) = (s \<noteq> [] \<and> hd s \<noteq> DQUOTE \<and> list_all (\<lambda>c. \<not> isspace c) s)"
| "wf_word (Quoted s) = True"

fun render_line :: "(word \<times> string) list \<Rightarrow> string" where
  "render_line [] = []"
| "render_line ((w, sep) # items) = render w @ sep @ render_line items"

fun wf_items :: "(word \<times> string) list \<Rightarrow> bool" where
  "wf_items [] = True"
| "wf_items [(w, sep)] = (wf_word w \<and> list_all isspace sep)"
| "wf_items ((w, sep) # item # items) =
     (wf_word w \<and> list_all isspace sep \<and> sep \<noteq> [] \<and> wf_items (item # items))"

text \<open>The words of a vector joined by single spaces.\<close>

fun join_words :: "StrVec \<Rightarrow> string" where
  "join_words [] = []"
| "join_words [word] = word"
| "join_words (word # rest) = word @ '' '' @ join_words rest"

text \<open>An environment and a world to run examples in: no file can be opened, the
  \<open>k\<close>-th process has id \<open>100 + k\<close>, every process ends with status 0.\<close>

definition example_env :: env where
  "example_env = \<lparr>files = (\<lambda>_. None), forkNexec_pid = (\<lambda>k _. 100 + int k),
                   cp_wait = (\<lambda>_. 0), waitpid_status = (\<lambda>_. 0)\<rparr>"

definition start :: world where
  "start = \<lparr>trace = [], nforks = 0\<rparr>"

text \<open>The same with one file, \<open>batch.txt\<close>, holding two commands.\<close>

definition batch_env :: env where
  "batch_env = \<lparr>files = (\<lambda>path. if path = ''batch.txt'' then Some (unlines [''sleep 1'', ''sleep 2'']) else None),
                 forkNexec_pid = (\<lambda>k _. 100 + int k), cp_wait = (\<lambda>_. 0), waitpid_status = (\<lambda>_. 0)\<rparr>"

subsection \<open>Reading lines\<close>

lemma takeWhile_line: "x \<notin> set l \<Longrightarrow> takeWhile (\<lambda>c. c \<noteq> x) (l @ x # rest) = l"
  by (induction l) auto

lemma dropWhile_line: "x \<notin> set l \<Longrightarrow> dropWhile (\<lambda>c. c \<noteq> x) (l @ x # rest) = x # rest"
  by (induction l) auto

lemma getline_line:
  "NL \<notin> set l \<Longrightarrow> getline (fresh (l @ NL # rest)) = (fresh rest, Some l)"
  by (simp add: getline_def takeWhile_line dropWhile_line)

lemma getline_last:
  "l \<noteq> [] \<Longrightarrow> NL \<notin> set l \<Longrightarrow>
   getline (fresh l) = (\<lparr>buf = [], eofbit = True, failbit = False\<rparr>, Some l)"
  by (simp add: getline_def)

lemma getline_end:
  "getline (fresh []) = (\<lparr>buf = [], eofbit = True, failbit = True\<rparr>, None)"
  by (simp add: getline_def)

lemma getline_failed: "failbit ins \<Longrightarrow> getline ins = (ins, None)"
  by (simp add: getline_def)

lemmas split_eval = split_def split_while.simps isspace_def

lemma split_Nil: "split [] = []"
  by (simp add: split_eval)

lemma is_command_nonempty: "is_command (split l) \<Longrightarrow> l \<noteq> []"
  by (auto simp: is_command_def split_Nil)

subsection \<open>One turn of the loop\<close>

lemma processFirstWord_command:
  "is_command line \<Longrightarrow> processFirstWord fuel e line w = Inr (True, w)"
  by (cases line) (simp_all add: is_command_def processFirstWord.simps)

lemma processFirstWord_exit:
  "processFirstWord fuel e (''exit'' # args) w = Inr (False, w)"
  by (simp add: processFirstWord.simps)

lemma while_end:
  "processCmds_while fuel e (fresh []) os parMode prompt parPids w =
     Inr (\<lparr>buf = [], eofbit = True, failbit = True\<rparr>, parPids, emit [Write os prompt, Getline] w)"
  by (subst processCmds_while.simps) (simp add: getline_end)

lemma while_failed:
  "failbit ins \<Longrightarrow> processCmds_while fuel e ins os parMode prompt parPids w =
     Inr (ins, parPids, emit [Write os prompt, Getline] w)"
  by (subst processCmds_while.simps) (simp add: getline_failed)

lemma while_serial:
  "valid_line l \<Longrightarrow>
   processCmds_while fuel e (fresh (l @ NL # rest)) os False prompt parPids w =
     processCmds_while fuel e (fresh rest) os False prompt parPids
       (runSerialCommand e os (split l) (emit [Write os prompt, Getline] w))"
  by (subst processCmds_while.simps)
     (simp add: valid_line_def getline_line processFirstWord_command is_command_def)

lemma while_parallel:
  "valid_line l \<Longrightarrow>
   processCmds_while fuel e (fresh (l @ NL # rest)) os True prompt parPids w =
     (case runParallelCommand e os (split l) parPids (emit [Write os prompt, Getline] w) of
        (parPids', w2) \<Rightarrow> processCmds_while fuel e (fresh rest) os True prompt parPids' w2)"
  by (subst processCmds_while.simps)
     (simp add: valid_line_def getline_line processFirstWord_command is_command_def)

lemma while_ignore:
  "NL \<notin> set l \<Longrightarrow> checkIgnore (split l) \<Longrightarrow>
   processCmds_while fuel e (fresh (l @ NL # rest)) os parMode prompt parPids w =
     processCmds_while fuel e (fresh rest) os parMode prompt parPids (emit [Write os prompt, Getline] w)"
  by (subst processCmds_while.simps) (simp add: getline_line)

lemma while_exit_read:
  "getline ins = (ins', Some x) \<Longrightarrow> split x = ''exit'' # args \<Longrightarrow>
   processCmds_while fuel e ins os parMode prompt parPids w =
     Inr (ins', parPids, emit [Write os prompt, Getline] w)"
  by (subst processCmds_while.simps) (simp add: processFirstWord_exit)

lemma while_unterminated_command:
  assumes "valid_line l"
  shows "processCmds_while fuel e (fresh l) os parMode prompt parPids w =
     Inr (\<lparr>buf = [], eofbit = True, failbit = False\<rparr>, parPids, emit [Write os prompt, Getline] w)"
proof -
  from assms have "l \<noteq> []" "NL \<notin> set l" "is_command (split l)"
    by (auto simp: valid_line_def is_command_nonempty)
  then show ?thesis
    by (subst processCmds_while.simps) (simp add: getline_last processFirstWord_command is_command_def)
qed

lemma while_nested:
  assumes "getline ins = (ins', Some l)" and "split l = kw # path # args"
    and "kw = ''SERIAL'' \<or> kw = ''PARALLEL''"
  shows "processCmds_while (Suc fuel) e ins os parMode prompt parPids w =
     (case processCmds fuel e (ifstream e path) StdOut (kw = ''PARALLEL'') []
             (emit [Write os prompt, Getline, Open path] w) of
        Inl err \<Rightarrow> Inl err
      | Inr (in', w') \<Rightarrow> Inr (ins', parPids, w'))"
  using assms(3)
  by (subst processCmds_while.simps)
     (auto simp: assms(1,2) processFirstWord.simps emit_def split: sum.splits)

lemma while_missing_path:
  assumes "getline ins = (ins', Some l)" and "split l = [kw]"
    and "kw = ''SERIAL'' \<or> kw = ''PARALLEL''"
  shows "processCmds_while fuel e ins os parMode prompt parPids w = Inl OutOfRange"
  using assms(3)
  by (subst processCmds_while.simps) (auto simp: assms(1,2) processFirstWord.simps)

lemma session_unopened:
  assumes "files e path = None"
  shows "processCmds fuel e (ifstream e path) StdOut parMode [] w =
     Inr (\<lparr>buf = [], eofbit = False, failbit = True\<rparr>, emit [Write StdOut [], Getline] w)"
  by (simp add: processCmds.simps ifstream_def assms while_failed)

subsection \<open>Runs of commands\<close>

lemma runSerialCommand_world:
  "runSerialCommand e os command w =
     \<lparr>trace = trace w @ print_command os command
        @ [Fork command (forkNexec_pid e (nforks w) command), Wait (forkNexec_pid e (nforks w) command),
           Write os ''Exit code: '', Write os (show_int (cp_wait e (forkNexec_pid e (nforks w) command))),
           Write os [NL]],
      nforks = Suc (nforks w)\<rparr>"
  by (simp add: runSerialCommand_def forkNexec_def emit_def Let_def)

lemma runParallelCommand_world:
  "runParallelCommand e os command parPids w =
     (parPids @ [forkNexec_pid e (nforks w) command],
      \<lparr>trace = trace w @ print_command os command @ [Fork command (forkNexec_pid e (nforks w) command)],
       nforks = Suc (nforks w)\<rparr>)"
  by (simp add: runParallelCommand_def forkNexec_def emit_def Let_def)

lemma unlines_Cons: "unlines (l # ls) @ rest = l @ NL # unlines ls @ rest"
  by (simp add: unlines_def)

lemma unlines_Nil: "unlines [] = []"
  by (simp add: unlines_def)

lemma world_eta: "\<lparr>trace = trace w, nforks = nforks w\<rparr> = (w :: world)"
  by (cases w) simp

lemma serial_lines:
  "\<forall>l \<in> set ls. valid_line l \<Longrightarrow>
   processCmds_while fuel e (fresh (unlines ls @ rest)) os False prompt parPids w =
     processCmds_while fuel e (fresh rest) os False prompt parPids
       \<lparr>trace = trace w @ serial_run e os prompt (nforks w) ls, nforks = nforks w + length ls\<rparr>"
proof (induction ls arbitrary: w)
  case Nil
  show ?case by (simp add: unlines_Nil world_eta)
next
  case (Cons l ls)
  then have l: "valid_line l" and ls: "\<forall>l \<in> set ls. valid_line l" by simp_all
  show ?case
    unfolding unlines_Cons while_serial [OF l] Cons.IH [OF ls]
    by (simp add: runSerialCommand_world emit_def)
qed

lemma parallel_lines:
  "\<forall>l \<in> set ls. valid_line l \<Longrightarrow>
   processCmds_while fuel e (fresh (unlines ls @ rest)) os True prompt parPids w =
     processCmds_while fuel e (fresh rest) os True prompt (parPids @ launched_pids e (nforks w) ls)
       \<lparr>trace = trace w @ parallel_launch e os prompt (nforks w) ls, nforks = nforks w + length ls\<rparr>"
proof (induction ls arbitrary: w parPids)
  case Nil
  show ?case by (simp add: unlines_Nil world_eta)
next
  case (Cons l ls)
  then have l: "valid_line l" and ls: "\<forall>l \<in> set ls. valid_line l" by simp_all
  show ?case
    unfolding unlines_Cons while_parallel [OF l] runParallelCommand_world prod.case Cons.IH [OF ls]
    by (simp add: emit_def)
qed

lemma parallel_continuing_lines:
  "\<forall>l \<in> set ls. continuing_line l \<Longrightarrow>
   processCmds_while fuel e (fresh (unlines ls @ rest)) os True prompt parPids w =
     processCmds_while fuel e (fresh rest) os True prompt (parPids @ forked_pids e (nforks w) ls)
       \<lparr>trace = trace w @ launch_or_skip e os prompt (nforks w) ls,
        nforks = nforks w + length (forked_pids e (nforks w) ls)\<rparr>"
proof (induction ls arbitrary: w parPids)
  case Nil
  show ?case by (simp add: unlines_Nil world_eta)
next
  case (Cons l ls)
  then have l: "continuing_line l" and ls: "\<forall>l \<in> set ls. continuing_line l" by simp_all
  show ?case
  proof (cases "checkIgnore (split l)")
    case True
    from l have n: "NL \<notin> set l" by (simp add: continuing_line_def)
    show ?thesis
      unfolding unlines_Cons while_ignore [OF n True] Cons.IH [OF ls]
      using True by (simp add: emit_def)
  next
    case False
    with l have v: "valid_line l" by (simp add: continuing_line_def valid_line_def)
    show ?thesis
      unfolding unlines_Cons while_parallel [OF v] runParallelCommand_world prod.case Cons.IH [OF ls]
      using False by (simp add: emit_def)
  qed
qed

lemma drain_world:
  "waitForParalellCommands e StdOut parPids w = emit (drain_events e parPids) w"
  by (induction parPids arbitrary: w) (simp_all add: emit_def)

subsection \<open>Projections of the events of a run\<close>

lemma forks_append: "forks (xs @ ys) = forks xs @ forks ys"
  by (induction xs rule: forks.induct) simp_all

lemma waits_append: "waits (xs @ ys) = waits xs @ waits ys"
  by (induction xs rule: waits.induct) simp_all

lemma written_append: "written s (xs @ ys) = written s xs @ written s ys"
  by (induction s xs rule: written.induct) simp_all

lemma forks_print_words: "forks (print_words os back command) = []"
  by (induction command) (simp_all add: forks_append)

lemma waits_print_words: "waits (print_words os back command) = []"
  by (induction command) (simp_all add: waits_append)

lemma forks_print_command: "forks (print_command os command) = []"
  by (simp add: print_command_def forks_append forks_print_words)

lemma waits_print_command: "waits (print_command os command) = []"
  by (simp add: print_command_def waits_append waits_print_words)

lemma one_at_a_time_print_words:
  "one_at_a_time out (print_words os back command @ evs) = one_at_a_time out evs"
  by (induction command) simp_all

lemma one_at_a_time_print_command:
  "one_at_a_time out (print_command os command @ evs) = one_at_a_time out evs"
  by (simp add: print_command_def one_at_a_time_print_words)

lemma forks_serial_run:
  "forks (serial_run e os prompt k ls) = zip (map split ls) (launched_pids e k ls)"
  by (induction ls arbitrary: k) (simp_all add: forks_append forks_print_command)

lemma waits_serial_run: "waits (serial_run e os prompt k ls) = launched_pids e k ls"
  by (induction ls arbitrary: k) (simp_all add: waits_append waits_print_command)

lemma one_at_a_time_serial_run:
  "one_at_a_time None (serial_run e os prompt k ls @ evs) = one_at_a_time None evs"
  by (induction ls arbitrary: k) (simp_all add: one_at_a_time_print_command)

lemma forks_parallel_launch:
  "forks (parallel_launch e os prompt k ls) = zip (map split ls) (launched_pids e k ls)"
  by (induction ls arbitrary: k) (simp_all add: forks_append forks_print_command)

lemma waits_parallel_launch: "waits (parallel_launch e os prompt k ls) = []"
  by (induction ls arbitrary: k) (simp_all add: waits_append waits_print_command)

lemma forks_launch_or_skip:
  "map snd (forks (launch_or_skip e os prompt k ls)) = forked_pids e k ls"
  by (induction ls arbitrary: k) (simp_all add: forks_append forks_print_command)

lemma waits_launch_or_skip: "waits (launch_or_skip e os prompt k ls) = []"
  by (induction ls arbitrary: k) (simp_all add: waits_append waits_print_command)

lemma forks_drain_events: "forks (drain_events e pids) = []"
  by (induction pids) simp_all

lemma waits_drain_events: "waits (drain_events e pids) = pids"
  by (induction pids) simp_all

lemma written_drain_events:
  "written StdOut (drain_events e pids) =
     concat (map (\<lambda>pid. ''Exit code: '' @ show_int (waitpid_status e pid) @ [NL]) pids)"
  by (induction pids) simp_all

lemma length_launched_pids: "length (launched_pids e k ls) = length ls"
  by (induction ls arbitrary: k) simp_all

subsection \<open>Sessions over command lines\<close>

lemma serial_session:
  assumes "\<forall>l \<in> set ls. valid_line l"
  shows "processCmds fuel e (fresh (unlines ls)) os False prompt w =
     Inr (\<lparr>buf = [], eofbit = True, failbit = True\<rparr>,
          \<lparr>trace = trace w @ serial_run e os prompt (nforks w) ls @ [Write os prompt, Getline],
           nforks = nforks w + length ls\<rparr>)"
  using serial_lines [OF assms, of fuel e "[]" os prompt "[]" w]
  by (simp add: processCmds.simps while_end emit_def)

lemma parallel_session:
  assumes "\<forall>l \<in> set ls. valid_line l"
  shows "processCmds fuel e (fresh (unlines ls)) os True prompt w =
     Inr (\<lparr>buf = [], eofbit = True, failbit = True\<rparr>,
          \<lparr>trace = trace w @ parallel_launch e os prompt (nforks w) ls @ [Write os prompt, Getline]
                   @ drain_events e (launched_pids e (nforks w) ls),
           nforks = nforks w + length ls\<rparr>)"
  using parallel_lines [OF assms, of fuel e "[]" os prompt "[]" w]
  by (simp add: processCmds.simps while_end emit_def drain_world)

lemma parallel_exit_read_session:
  assumes "\<forall>l \<in> set ls. continuing_line l" and "getline (fresh rest) = (ins', Some x)"
    and "split x = ''exit'' # args"
  shows "processCmds fuel e (fresh (unlines ls @ rest)) os True prompt w =
     Inr (ins',
          \<lparr>trace = trace w @ launch_or_skip e os prompt (nforks w) ls @ [Write os prompt, Getline]
                   @ drain_events e (forked_pids e (nforks w) ls),
           nforks = nforks w + length (forked_pids e (nforks w) ls)\<rparr>)"
  using parallel_continuing_lines [OF assms(1), of fuel e rest os prompt "[]" w]
  by (simp add: processCmds.simps while_exit_read [OF assms(2,3)] emit_def drain_world)

lemma serial_session_tail:
  assumes "\<forall>l \<in> set ls. valid_line l" and "tail = [] \<or> valid_line tail"
  shows "processCmds fuel e (fresh (unlines ls @ tail)) os False prompt w =
     Inr (\<lparr>buf = [], eofbit = True, failbit = (tail = [])\<rparr>,
          \<lparr>trace = trace w @ serial_run e os prompt (nforks w) ls @ [Write os prompt, Getline],
           nforks = nforks w + length ls\<rparr>)"
proof (cases "tail = []")
  case True
  with serial_lines [OF assms(1), of fuel e "[]" os prompt "[]" w] show ?thesis
    by (simp add: processCmds.simps while_end emit_def)
next
  case False
  with assms(2) have v: "valid_line tail" by simp
  from False serial_lines [OF assms(1), of fuel e tail os prompt "[]" w] show ?thesis
    by (simp add: processCmds.simps while_unterminated_command [OF v] emit_def)
qed

lemma parallel_session_tail:
  assumes "\<forall>l \<in> set ls. valid_line l" and "tail = [] \<or> valid_line tail"
  shows "processCmds fuel e (fresh (unlines ls @ tail)) os True prompt w =
     Inr (\<lparr>buf = [], eofbit = True, failbit = (tail = [])\<rparr>,
          \<lparr>trace = trace w @ parallel_launch e os prompt (nforks w) ls @ [Write os prompt, Getline]
                   @ drain_events e (launched_pids e (nforks w) ls),
           nforks = nforks w + length ls\<rparr>)"
proof (cases "tail = []")
  case True
  with parallel_lines [OF assms(1), of fuel e "[]" os prompt "[]" w] show ?thesis
    by (simp add: processCmds.simps while_end emit_def drain_world)
next
  case False
  with assms(2) have v: "valid_line tail" by simp
  from False parallel_lines [OF assms(1), of fuel e tail os prompt "[]" w] show ?thesis
    by (simp add: processCmds.simps while_unterminated_command [OF v] emit_def drain_world)
qed

subsection \<open>The words of a well-formed line\<close>

lemma split_while_skip:
  assumes "list_all isspace pre"
  shows "split_while (pre @ s) words = split_while s words"
proof -
  from assms have d: "dropWhile isspace (pre @ s) = dropWhile isspace s"
    by (simp add: list_all_iff)
  show ?thesis
    by (subst split_while.simps [of "pre @ s"], subst split_while.simps [of s]) (simp only: d)
qed

lemma split_while_space:
  assumes "list_all isspace s"
  shows "split_while s words = words"
proof -
  from assms have d: "dropWhile isspace s = []"
    by (simp add: list_all_iff)
  show ?thesis
    by (subst split_while.simps) (simp only: d list.case)
qed

lemma read_quoted_escape:
  "read_quoted acc (escape s @ DQUOTE # rest) = Some (acc @ s, rest)"
  by (induction s arbitrary: acc) simp_all

lemma split_while_quoted:
  "split_while (DQUOTE # escape s @ DQUOTE # rest) words = split_while rest (words @ [s])"
  by (subst split_while.simps) (simp add: isspace_def read_quoted_escape)

lemma takeWhile_word:
  assumes "list_all (\<lambda>c. \<not> P c) s" and "rest = [] \<or> P (hd rest)"
  shows "takeWhile (\<lambda>c. \<not> P c) (s @ rest) = s" and "dropWhile (\<lambda>c. \<not> P c) (s @ rest) = rest"
  using assms by (cases rest; simp add: list_all_iff takeWhile_append2 dropWhile_append2)+

lemma split_while_bare:
  assumes "wf_word (Bare s)" and "rest = [] \<or> isspace (hd rest)"
  shows "split_while (s @ rest) words = split_while rest (words @ [s])"
proof -
  from assms(1) obtain c cs where s: "s = c # cs" and c: "\<not> isspace c" "c \<noteq> DQUOTE"
    and a: "list_all (\<lambda>c. \<not> isspace c) s"
    by (cases s) auto
  from c(1) s have d: "dropWhile isspace (s @ rest) = c # (cs @ rest)"
    by simp
  have t: "takeWhile (\<lambda>x. \<not> isspace x) (c # cs @ rest) = s"
    "dropWhile (\<lambda>x. \<not> isspace x) (c # cs @ rest) = rest"
    using takeWhile_word [OF a assms(2)] s by simp_all
  show ?thesis
    by (subst split_while.simps) (simp only: d t c list.case if_False)
qed

lemma split_while_word:
  assumes "wf_word w" and "rest = [] \<or> isspace (hd rest)"
  shows "split_while (render w @ rest) words = split_while rest (words @ [text_of w])"
proof (cases w)
  case (Bare s)
  with assms split_while_bare [of s rest words] show ?thesis by simp
next
  case (Quoted s)
  show ?thesis
  proof (cases rest)
    case Nil
    have "split_while (DQUOTE # escape s @ [DQUOTE]) words = split_while [] (words @ [s])"
      by (subst split_while.simps) (simp add: isspace_def read_quoted_escape [of "[]" s "[]", simplified])
    with Nil Quoted show ?thesis by simp
  next
    case (Cons r rs)
    with Quoted split_while_quoted [of s rest words] show ?thesis by simp
  qed
qed

lemma split_while_items:
  "wf_items items \<Longrightarrow> split_while (render_line items) words = words @ map (\<lambda>(w, sep). text_of w) items"
proof (induction items arbitrary: words rule: wf_items.induct)
  case 1
  show ?case by (simp add: split_while_space)
next
  case (2 w sep)
  then have w: "wf_word w" and s: "list_all isspace sep" by simp_all
  from s have "sep = [] \<or> isspace (hd sep)" by (cases sep) simp_all
  from split_while_word [OF w this] s show ?case
    by (simp add: split_while_space)
next
  case (3 w sep item items)
  then have w: "wf_word w" and s: "list_all isspace sep" "sep \<noteq> []"
    and r: "wf_items (item # items)" by simp_all
  from s have "sep @ render_line (item # items) = [] \<or> isspace (hd (sep @ render_line (item # items)))"
    by (cases sep) simp_all
  from split_while_word [OF w this]
  have "split_while (render_line ((w, sep) # item # items)) words =
          split_while (sep @ render_line (item # items)) (words @ [text_of w])"
    by simp
  also have "\<dots> = split_while (render_line (item # items)) (words @ [text_of w])"
    by (rule split_while_skip [OF s(1)])
  also have "\<dots> = (words @ [text_of w]) @ map (\<lambda>(w, sep). text_of w) (item # items)"
    by (rule "3.IH" [OF r])
  finally show ?case by simp
qed

lemma split_items:
  assumes "list_all isspace pre" and "wf_items items"
  shows "split (pre @ render_line items) = map (\<lambda>(w, sep). text_of w) items"
  using split_while_skip [OF assms(1), of "render_line items" "[]"] split_while_items [OF assms(2), of "[]"]
  by (simp add: split_def)

subsection \<open>The streams written to\<close>

lemma writes_to_append: "writes_to s (xs @ ys) \<longleftrightarrow> writes_to s xs \<and> writes_to s ys"
  by (induction s xs rule: writes_to.induct) simp_all

lemma writes_to_print_words: "writes_to os (print_words os back command)"
  by (induction command) (simp_all add: writes_to_append)

lemma writes_to_print_command: "writes_to os (print_command os command)"
  by (simp add: print_command_def writes_to_append writes_to_print_words)

lemma own_print_words: "\<forall>ev \<in> set (print_words os back command). \<not> hands_over ev"
  by (induction command) auto

lemma own_print_command: "\<forall>ev \<in> set (print_command os command). \<not> hands_over ev"
  by (simp add: print_command_def own_print_words)

lemma writes_to_drain_events: "writes_to StdOut (drain_events e pids)"
  by (induction pids) simp_all

lemma drain_events_hands_over: "drain_events e pids = [] \<or> hands_over (hd (drain_events e pids))"
  by (cases pids) simp_all

lemma written_other_sink: "writes_to s evs \<Longrightarrow> os \<noteq> s \<Longrightarrow> written os evs = []"
  by (induction s evs rule: writes_to.induct) auto

lemma sinks_kept_prefix:
  assumes "writes_to os pre" and "\<forall>ev \<in> set pre. \<not> hands_over ev" and "sinks_kept os evs"
  shows "sinks_kept os (pre @ evs)"
  using assms
  by (simp add: sinks_kept_def own_events_def later_events_def takeWhile_append2
                dropWhile_append2 writes_to_append)

lemma sinks_kept_own:
  assumes "writes_to os pre" and "\<forall>ev \<in> set pre. \<not> hands_over ev"
  shows "sinks_kept os pre"
proof -
  from assms(2) have t: "own_events pre = pre" "later_events pre = []"
    by (simp_all add: own_events_def later_events_def)
  show ?thesis
    unfolding sinks_kept_def t using assms(1) by simp
qed

lemma sinks_kept_later:
  assumes "writes_to StdOut evs" and "evs = [] \<or> hands_over (hd evs)"
  shows "sinks_kept os evs"
  using assms by (cases evs) (auto simp: sinks_kept_def own_events_def later_events_def)

lemma sinks_kept_append_later:
  assumes "sinks_kept os evs" and "writes_to StdOut d" and "d = [] \<or> hands_over (hd d)"
  shows "sinks_kept os (evs @ d)"
proof (cases "\<forall>ev \<in> set evs. \<not> hands_over ev")
  case True
  then have "own_events (evs @ d) = evs @ own_events d" "later_events (evs @ d) = later_events d"
    by (simp_all add: own_events_def later_events_def takeWhile_append2 dropWhile_append2)
  moreover from True have "own_events evs = evs"
    by (simp add: own_events_def)
  moreover from sinks_kept_later [OF assms(2,3)] have "sinks_kept os d" .
  moreover from assms(3) have "own_events d = []"
    by (cases d) (auto simp: own_events_def)
  ultimately show ?thesis
    using assms(1) by (simp add: sinks_kept_def writes_to_append)
next
  case False
  then obtain x where x: "x \<in> set evs" "\<not> \<not> hands_over x" by blast
  have "own_events (evs @ d) = own_events evs"
    unfolding own_events_def by (rule takeWhile_append1 [where x = x]) (use x in simp_all)
  moreover have "later_events (evs @ d) = later_events evs @ d"
    unfolding later_events_def by (rule dropWhile_append1 [where x = x]) (use x in simp_all)
  ultimately have "own_events (evs @ d) = own_events evs"
    and "later_events (evs @ d) = later_events evs @ d"
    by simp_all
  then show ?thesis
    using assms(1,2) by (simp add: sinks_kept_def writes_to_append)
qed

lemma sinks_kept_StdOut: "sinks_kept StdOut evs \<Longrightarrow> writes_to StdOut evs"
proof -
  assume "sinks_kept StdOut evs"
  then have "writes_to StdOut (own_events evs @ later_events evs)"
    by (simp add: sinks_kept_def writes_to_append)
  then show ?thesis
    by (simp add: own_events_def later_events_def)
qed

lemma trace_emit: "trace (emit evs w) = trace w @ evs"
  by (simp add: emit_def)

lemma trace_runSerialCommand:
  "trace (runSerialCommand e os command w) =
     trace w @ print_command os command
       @ [Fork command (forkNexec_pid e (nforks w) command), Wait (forkNexec_pid e (nforks w) command),
          Write os ''Exit code: '', Write os (show_int (cp_wait e (forkNexec_pid e (nforks w) command))),
          Write os [NL]]"
  by (simp add: runSerialCommand_world)

lemma trace_runParallelCommand:
  "trace (snd (runParallelCommand e os command parPids w)) =
     trace w @ print_command os command @ [Fork command (forkNexec_pid e (nforks w) command)]"
  by (simp add: runParallelCommand_world)

lemma while_sinks_kept:
  assumes F: "\<And>line w b w1. processFirstWord fuel e line w = Inr (b, w1) \<Longrightarrow>
                \<exists>evs. trace w1 = trace w @ evs \<and> writes_to StdOut evs \<and> (b \<longrightarrow> evs = [])
                      \<and> (evs = [] \<or> hands_over (hd evs))"
  shows "processCmds_while fuel e ins os parMode prompt parPids w = Inr (ins', parPids', w') \<Longrightarrow>
         \<exists>evs. trace w' = trace w @ evs \<and> sinks_kept os evs"
proof (induction "length (buf ins)" arbitrary: ins parPids w rule: less_induct)
  case less
  let ?w0 = "emit [Write os prompt, Getline] w"
  have pre: "writes_to os [Write os prompt, Getline]"
    "\<forall>ev \<in> set [Write os prompt, Getline]. \<not> hands_over ev"
    by simp_all
  obtain ins1 ol where g: "getline ins = (ins1, ol)"
    by (cases "getline ins")
  show ?case
  proof (cases ol)
    case None
    with g less.prems have "w' = ?w0"
      by (subst (asm) processCmds_while.simps) simp
    then have "trace w' = trace w @ [Write os prompt, Getline]"
      by (simp add: trace_emit)
    with sinks_kept_own [OF pre] show ?thesis
      by (intro exI [of _ "[Write os prompt, Getline]"]) simp
  next
    case (Some line)
    with g have sh: "length (buf ins1) < length (buf ins)"
      by (simp add: getline_shorter)
    show ?thesis
    proof (cases "checkIgnore (split line)")
      case True
      with g Some less.prems
      have "processCmds_while fuel e ins1 os parMode prompt parPids ?w0 = Inr (ins', parPids', w')"
        by (subst (asm) processCmds_while.simps) simp
      from less.hyps [OF sh this] obtain evs
        where evs: "trace w' = trace ?w0 @ evs" "sinks_kept os evs" by blast
      from evs(1) have "trace w' = trace w @ [Write os prompt, Getline] @ evs"
        by (simp add: trace_emit)
      with sinks_kept_prefix [OF pre evs(2)] show ?thesis
        by (intro exI [of _ "[Write os prompt, Getline] @ evs"]) simp
    next
      case False
      show ?thesis
      proof (cases "processFirstWord fuel e (split line) ?w0")
        case (Inl err)
        with g Some False less.prems show ?thesis
          by (subst (asm) processCmds_while.simps) simp
      next
        case (Inr r)
        obtain cmd w1 where r: "r = (cmd, w1)"
          by (cases r)
        from F [of "split line" ?w0 cmd w1] Inr r obtain evs1
          where evs1: "trace w1 = trace ?w0 @ evs1" "writes_to StdOut evs1" "cmd \<longrightarrow> evs1 = []"
            "evs1 = [] \<or> hands_over (hd evs1)"
          by auto
        show ?thesis
        proof (cases "\<not> cmd \<or> eofbit ins1")
          case True
          with g Some False Inr r less.prems have "w' = w1"
            by (subst (asm) processCmds_while.simps) auto
          with evs1(1) have "trace w' = trace w @ [Write os prompt, Getline] @ evs1"
            by (simp add: trace_emit)
          with sinks_kept_prefix [OF pre sinks_kept_later [OF evs1(2,4)]] show ?thesis
            by (intro exI [of _ "[Write os prompt, Getline] @ evs1"]) simp
        next
          case go: False
          with evs1 have t1: "trace w1 = trace w @ [Write os prompt, Getline]"
            by (simp add: trace_emit)
          show ?thesis
          proof (cases parMode)
            case False
            let ?run = "print_command os (split line)
               @ [Fork (split line) (forkNexec_pid e (nforks w1) (split line)),
                  Wait (forkNexec_pid e (nforks w1) (split line)),
                  Write os ''Exit code: '',
                  Write os (show_int (cp_wait e (forkNexec_pid e (nforks w1) (split line)))),
                  Write os [NL]]"
            from g Some \<open>\<not> checkIgnore (split line)\<close> Inr r go False less.prems
            have "processCmds_while fuel e ins1 os parMode prompt parPids
                    (runSerialCommand e os (split line) w1) = Inr (ins', parPids', w')"
              by (subst (asm) processCmds_while.simps) auto
            from less.hyps [OF sh this] obtain evs
              where evs: "trace w' = trace (runSerialCommand e os (split line) w1) @ evs"
                "sinks_kept os evs" by blast
            have p: "writes_to os ([Write os prompt, Getline] @ ?run)"
              "\<forall>ev \<in> set ([Write os prompt, Getline] @ ?run). \<not> hands_over ev"
              using own_print_command [of os "split line"]
              by (simp_all add: writes_to_append writes_to_print_command)
            from evs(1) have "trace w' = trace w @ ([Write os prompt, Getline] @ ?run) @ evs"
              by (simp add: trace_runSerialCommand t1)
            with sinks_kept_prefix [OF p evs(2)] show ?thesis
              by (intro exI [of _ "([Write os prompt, Getline] @ ?run) @ evs"]) simp
          next
            case True
            let ?run = "print_command os (split line)
               @ [Fork (split line) (forkNexec_pid e (nforks w1) (split line))]"
            obtain pids2 w2 where rp: "runParallelCommand e os (split line) parPids w1 = (pids2, w2)"
              by (cases "runParallelCommand e os (split line) parPids w1")
            from g Some \<open>\<not> checkIgnore (split line)\<close> Inr r go True less.prems rp
            have "processCmds_while fuel e ins1 os parMode prompt pids2 w2 = Inr (ins', parPids', w')"
              by (subst (asm) processCmds_while.simps) auto
            from less.hyps [OF sh this] obtain evs
              where evs: "trace w' = trace w2 @ evs" "sinks_kept os evs" by blast
            have p: "writes_to os ([Write os prompt, Getline] @ ?run)"
              "\<forall>ev \<in> set ([Write os prompt, Getline] @ ?run). \<not> hands_over ev"
              using own_print_command [of os "split line"]
              by (simp_all add: writes_to_append writes_to_print_command)
            from rp have "trace w2 = trace w1 @ ?run"
              using trace_runParallelCommand [of e os "split line" parPids w1] by simp
            with evs(1) have "trace w' = trace w @ ([Write os prompt, Getline] @ ?run) @ evs"
              by (simp add: t1)
            with sinks_kept_prefix [OF p evs(2)] show ?thesis
              by (intro exI [of _ "([Write os prompt, Getline] @ ?run) @ evs"]) simp
          qed
        qed
      qed
    qed
  qed
qed

lemma session_sinks_kept:
  assumes F: "\<And>line w b w1. processFirstWord fuel e line w = Inr (b, w1) \<Longrightarrow>
                \<exists>evs. trace w1 = trace w @ evs \<and> writes_to StdOut evs \<and> (b \<longrightarrow> evs = [])
                      \<and> (evs = [] \<or> hands_over (hd evs))"
    and run: "processCmds fuel e ins os parMode prompt w = Inr (ins', w')"
  shows "\<exists>evs. trace w' = trace w @ evs \<and> sinks_kept os evs"
proof (cases "processCmds_while fuel e ins os parMode prompt [] w")
  case (Inl err)
  with run show ?thesis
    by (simp add: processCmds.simps)
next
  case (Inr r)
  obtain ins1 pids w1 where r: "r = (ins1, pids, w1)"
    by (cases r)
  from Inr r have "processCmds_while fuel e ins os parMode prompt [] w = Inr (ins1, pids, w1)"
    by simp
  then have "\<exists>evs. trace w1 = trace w @ evs \<and> sinks_kept os evs"
    by (rule while_sinks_kept [rotated]) (rule F)
  then obtain evs where evs: "trace w1 = trace w @ evs" "sinks_kept os evs"
    by blast
  show ?thesis
  proof (cases parMode)
    case True
    with run Inr r have "w' = emit (drain_events e pids) w1"
      by (simp add: processCmds.simps drain_world)
    with evs(1) have "trace w' = trace w @ evs @ drain_events e pids"
      by (simp add: trace_emit)
    with sinks_kept_append_later [OF evs(2) writes_to_drain_events drain_events_hands_over]
    show ?thesis by blast
  next
    case False
    with run Inr r have "w' = w1"
      by (simp add: processCmds.simps)
    with evs show ?thesis by blast
  qed
qed

lemma processFirstWord_cases:
  assumes "processFirstWord fuel e line w = Inr (b, w1)"
  shows "w1 = w \<or>
         (\<not> b \<and> (\<exists>n path parMode in'. fuel = Suc n \<and>
             processCmds n e (ifstream e path) StdOut parMode [] (emit [Open path] w) = Inr (in', w1)))"
  using assms
  by (subst (asm) processFirstWord.simps)
     (auto split: list.splits if_splits nat.splits sum.splits)

lemma processFirstWord_events:
  "processFirstWord fuel e line w = Inr (b, w1) \<Longrightarrow>
   \<exists>evs. trace w1 = trace w @ evs \<and> writes_to StdOut evs \<and> (b \<longrightarrow> evs = [])
         \<and> (evs = [] \<or> hands_over (hd evs))"
proof (induction fuel arbitrary: e line w b w1)
  case 0
  from processFirstWord_cases [OF 0] have "w1 = w" by simp
  then show ?case by simp
next
  case (Suc n)
  from processFirstWord_cases [OF Suc.prems] show ?case
  proof
    assume "w1 = w"
    then show ?thesis by simp
  next
    assume "\<not> b \<and> (\<exists>m path parMode in'. Suc n = Suc m \<and>
             processCmds m e (ifstream e path) StdOut parMode [] (emit [Open path] w) = Inr (in', w1))"
    then obtain path parMode in' where b: "\<not> b"
      and run: "processCmds n e (ifstream e path) StdOut parMode [] (emit [Open path] w) = Inr (in', w1)"
      by auto
    have "\<exists>evs. trace w1 = trace (emit [Open path] w) @ evs \<and> sinks_kept StdOut evs"
      by (rule session_sinks_kept [OF _ run]) (rule Suc.IH)
    then obtain evs
      where evs: "trace w1 = trace (emit [Open path] w) @ evs" "sinks_kept StdOut evs"
      by blast
    from evs(1) have "trace w1 = trace w @ Open path # evs"
      by (simp add: trace_emit)
    moreover from sinks_kept_StdOut [OF evs(2)] have "writes_to StdOut (Open path # evs)"
      by simp
    ultimately show ?thesis
      using b by (intro exI [of _ "Open path # evs"]) simp
  qed
qed

subsection \<open>Concrete lines and values\<close>

lemma valid_line_sleep1: "valid_line ''sleep 1''"
  by (simp add: valid_line_def is_command_def split_eval)

lemma valid_line_sleep2: "valid_line ''sleep 2''"
  by (simp add: valid_line_def is_command_def split_eval)

lemma split_sleep1: "split ''sleep 1'' = [''sleep'', ''1'']"
  by (simp add: split_eval)

lemma split_sleep2: "split ''sleep 2'' = [''sleep'', ''2'']"
  by (simp add: split_eval)

lemma split_exit: "split ''exit'' = [''exit'']"
  by (simp add: split_eval)

lemma show_int_0: "show_int 0 = ''0''"
  by (simp add: show_int_def show_nat.simps digit_def)

lemma print_command_sleep1:
  "print_command os [''sleep'', ''1''] =
     [Write os ''Running: '', Write os ''sleep'', Write os '' '', Write os ''1'', Write os [NL]]"
  by (simp add: print_command_def)

lemma print_command_sleep2:
  "print_command os [''sleep'', ''2''] =
     [Write os ''Running: '', Write os ''sleep'', Write os '' '', Write os ''2'', Write os [NL]]"
  by (simp add: print_command_def)

lemma valid_line_ls: "valid_line ''ls''"
  by (simp add: valid_line_def is_command_def split_eval)

lemma split_echo: "split ''echo a b a'' = [''echo'', ''a'', ''b'', ''a'']"
  by (simp add: split_eval)

lemma split_SERIAL: "split ''SERIAL'' = [''SERIAL'']"
  by (simp add: split_eval)

lemma split_PARALLEL: "split ''PARALLEL'' = [''PARALLEL'']"
  by (simp add: split_eval)

lemma split_PARALLEL_batch: "split ''PARALLEL batch.txt'' = [''PARALLEL'', ''batch.txt'']"
  by (simp add: split_eval)

lemma split_SERIAL_nofile: "split ''SERIAL nofile'' = [''SERIAL'', ''nofile'']"
  by (simp add: split_eval)

lemma continuing_line_note: "continuing_line ''# note''"
  by (simp add: continuing_line_def split_eval)

lemma split_note: "split ''# note'' = [''#'', ''note'']"
  by (simp add: split_eval)

lemma continuing_line_sleep1: "continuing_line ''sleep 1''"
  using valid_line_sleep1 by (simp add: continuing_line_def valid_line_def)

section \<open>Properties of the sessions\<close>

text \<open>
  C1 (as amended). In every parallel session in which a line with first word \<open>exit\<close> is
  read, whatever lines were read before it (ignored lines and commands) and whether or
  not the line ends with a newline, the reading stops there: the stream is returned as it
  is after that line. The session then drains its pending process ids as at the end of
  the input: nothing was waited for before, and now it waits for every process it has
  forked, in the order of the forks, and writes each status to the standard output.
\<close>

theorem exit_in_parallel_session_drains:
  assumes "\<forall>l \<in> set ls. continuing_line l" and "getline (fresh rest) = (ins', Some x)"
    and "split x = ''exit'' # args"
  shows "processCmds fuel e (fresh (unlines ls @ rest)) os True prompt w =
     Inr (ins',
          \<lparr>trace = trace w @ launch_or_skip e os prompt (nforks w) ls @ [Write os prompt, Getline]
                   @ drain_events e (forked_pids e (nforks w) ls),
           nforks = nforks w + length (forked_pids e (nforks w) ls)\<rparr>)
     \<and> map snd (forks (launch_or_skip e os prompt (nforks w) ls)) = forked_pids e (nforks w) ls
     \<and> waits (launch_or_skip e os prompt (nforks w) ls) = []
     \<and> waits (drain_events e (forked_pids e (nforks w) ls)) = forked_pids e (nforks w) ls"
  using parallel_exit_read_session [OF assms]
  by (simp add: waits_drain_events forks_launch_or_skip waits_launch_or_skip)

text \<open>An instance: an ignored line and a command before an \<open>exit\<close> without newline.\<close>

theorem exit_in_parallel_session_drains_witness:
  "processCmds 0 example_env (fresh (unlines [''# note'', ''sleep 1''] @ ''exit'')) (Sink 0) True ''> '' start =
     Inr (\<lparr>buf = [], eofbit = True, failbit = False\<rparr>,
          \<lparr>trace = [Write (Sink 0) ''> '', Getline,
                    Write (Sink 0) ''> '', Getline, Write (Sink 0) ''Running: '', Write (Sink 0) ''sleep'',
                    Write (Sink 0) '' '', Write (Sink 0) ''1'', Write (Sink 0) [NL],
                    Fork [''sleep'', ''1''] 100, Write (Sink 0) ''> '', Getline,
                    Waitpid 100, Write StdOut ''Exit code: '', Write StdOut ''0'', Write StdOut [NL]],
           nforks = 1\<rparr>)"
proof -
  have g: "getline (fresh ''exit'') = (\<lparr>buf = [], eofbit = True, failbit = False\<rparr>, Some ''exit'')"
    by (rule getline_last) simp_all
  have c: "\<forall>l \<in> set [''# note'', ''sleep 1'']. continuing_line l"
    by (simp add: continuing_line_note continuing_line_sleep1)
  show ?thesis
    using exit_in_parallel_session_drains [OF c g split_exit, of 0 example_env "Sink 0" "''> ''" start]
    by (simp add: split_note split_sleep1 print_command_sleep1 show_int_0 example_env_def start_def)
qed

text \<open>
  C1 as stated says that \<open>exit\<close> leaves the forked processes unawaited and unreported. On
  the input \<open>sleep 1\<close>, \<open>exit\<close> the parallel session waits for process 100 and reports its
  status after reading \<open>exit\<close>.
\<close>

theorem exit_in_parallel_session_counterexample:
  "processCmds 0 example_env (fresh (unlines [''sleep 1'', ''exit''])) StdOut True ''> '' start =
     Inr (fresh [],
          \<lparr>trace = [Write StdOut ''> '', Getline, Write StdOut ''Running: '', Write StdOut ''sleep'',
                    Write StdOut '' '', Write StdOut ''1'', Write StdOut [NL],
                    Fork [''sleep'', ''1''] 100, Write StdOut ''> '', Getline,
                    Waitpid 100, Write StdOut ''Exit code: '', Write StdOut ''0'', Write StdOut [NL]],
           nforks = 1\<rparr>)
   \<and> waits [Write StdOut ''> '', Getline, Write StdOut ''Running: '', Write StdOut ''sleep'',
                    Write StdOut '' '', Write StdOut ''1'', Write StdOut [NL],
                    Fork [''sleep'', ''1''] 100, Write StdOut ''> '', Getline,
                    Waitpid 100, Write StdOut ''Exit code: '', Write StdOut ''0'', Write StdOut [NL]] = [100]"
proof -
  have g: "getline (fresh (''exit'' @ NL # [])) = (fresh [], Some ''exit'')"
    by (rule getline_line) simp
  have c: "\<forall>l \<in> set [''sleep 1'']. continuing_line l"
    by (simp add: continuing_line_sleep1)
  show ?thesis
    using parallel_exit_read_session [OF c g split_exit, of 0 example_env StdOut "''> ''" start]
    by (simp add: split_sleep1 print_command_sleep1 show_int_0 example_env_def start_def unlines_def)
qed

text \<open>
  C2 (as amended). A parallel session over \<open>N\<close> valid command lines, each ended by a
  newline, returns, and its events are: for each line in turn the prompt, the read, the
  printed command and the fork (no wait among them); then the prompt and the last read;
  then, for each forked process in the order of the forks, the wait for it followed by
  its status written to the standard output. This holds for every environment, so for
  every order in which the processes end. The input may end there, or with one more
  valid command line that has no newline: that line is read but not run, and the \<open>N\<close>
  lines before it are run and reported in the same way.
\<close>

theorem parallel_session_forks_all_then_waits_in_launch_order:
  assumes "\<forall>l \<in> set ls. valid_line l" and "tail = [] \<or> valid_line tail"
  shows "processCmds fuel e (fresh (unlines ls @ tail)) os True prompt w =
     Inr (\<lparr>buf = [], eofbit = True, failbit = (tail = [])\<rparr>,
          \<lparr>trace = trace w @ parallel_launch e os prompt (nforks w) ls @ [Write os prompt, Getline]
                   @ drain_events e (launched_pids e (nforks w) ls),
           nforks = nforks w + length ls\<rparr>)
     \<and> forks (parallel_launch e os prompt (nforks w) ls) = zip (map split ls) (launched_pids e (nforks w) ls)
     \<and> length (launched_pids e (nforks w) ls) = length ls
     \<and> waits (parallel_launch e os prompt (nforks w) ls) = []
     \<and> forks ([Write os prompt, Getline] @ drain_events e (launched_pids e (nforks w) ls)) = []
     \<and> waits (drain_events e (launched_pids e (nforks w) ls)) = launched_pids e (nforks w) ls
     \<and> written StdOut (drain_events e (launched_pids e (nforks w) ls)) =
           concat (map (\<lambda>pid. ''Exit code: '' @ show_int (waitpid_status e pid) @ [NL])
                    (launched_pids e (nforks w) ls))"
  using parallel_session_tail [OF assms]
  by (simp add: forks_parallel_launch length_launched_pids waits_parallel_launch forks_drain_events
                waits_drain_events written_drain_events)

text \<open>An instance with two commands.\<close>

theorem parallel_session_forks_all_then_waits_in_launch_order_witness:
  "processCmds 0 example_env (fresh (unlines [''sleep 1'', ''sleep 2''])) (Sink 0) True ''> '' start =
     Inr (\<lparr>buf = [], eofbit = True, failbit = True\<rparr>,
          \<lparr>trace = [Write (Sink 0) ''> '', Getline, Write (Sink 0) ''Running: '', Write (Sink 0) ''sleep'',
                    Write (Sink 0) '' '', Write (Sink 0) ''1'', Write (Sink 0) [NL],
                    Fork [''sleep'', ''1''] 100,
                    Write (Sink 0) ''> '', Getline, Write (Sink 0) ''Running: '', Write (Sink 0) ''sleep'',
                    Write (Sink 0) '' '', Write (Sink 0) ''2'', Write (Sink 0) [NL],
                    Fork [''sleep'', ''2''] 101,
                    Write (Sink 0) ''> '', Getline,
                    Waitpid 100, Write StdOut ''Exit code: '', Write StdOut ''0'', Write StdOut [NL],
                    Waitpid 101, Write StdOut ''Exit code: '', Write StdOut ''0'', Write StdOut [NL]],
           nforks = 2\<rparr>)"
  using parallel_session_forks_all_then_waits_in_launch_order
          [of "[''sleep 1'', ''sleep 2'']" "[]" 0 example_env "Sink 0" "''> ''" start]
  by (simp add: valid_line_sleep1 valid_line_sleep2 split_sleep1 split_sleep2 print_command_sleep1
                print_command_sleep2 show_int_0 example_env_def start_def)

text \<open>
  C2 as stated counts every valid command line before the end of the input. On the two
  valid command lines \<open>sleep 1\<close> and \<open>sleep 2\<close>, the second without a newline, the parallel
  session forks one process only.
\<close>

theorem parallel_session_unterminated_line_counterexample:
  "valid_line ''sleep 1'' \<and> valid_line ''sleep 2''
   \<and> processCmds 0 example_env (fresh (unlines [''sleep 1''] @ ''sleep 2'')) StdOut True ''> '' start =
     Inr (\<lparr>buf = [], eofbit = True, failbit = False\<rparr>,
          \<lparr>trace = [Write StdOut ''> '', Getline, Write StdOut ''Running: '', Write StdOut ''sleep'',
                    Write StdOut '' '', Write StdOut ''1'', Write StdOut [NL],
                    Fork [''sleep'', ''1''] 100,
                    Write StdOut ''> '', Getline,
                    Waitpid 100, Write StdOut ''Exit code: '', Write StdOut ''0'', Write StdOut [NL]],
           nforks = 1\<rparr>)
   \<and> forks [Write StdOut ''> '', Getline, Write StdOut ''Running: '', Write StdOut ''sleep'',
                    Write StdOut '' '', Write StdOut ''1'', Write StdOut [NL],
                    Fork [''sleep'', ''1''] 100,
                    Write StdOut ''> '', Getline,
                    Waitpid 100, Write StdOut ''Exit code: '', Write StdOut ''0'', Write StdOut [NL]]
       = [([''sleep'', ''1''], 100)]"
  using parallel_session_tail [of "[''sleep 1'']" "''sleep 2''" 0 example_env StdOut "''> ''" start]
  by (simp add: valid_line_sleep1 valid_line_sleep2 split_sleep1 print_command_sleep1 show_int_0
                example_env_def start_def)

text \<open>
  C5 (as amended). A serial session over \<open>N\<close> valid command lines, each ended by a
  newline, returns; it forks \<open>N\<close> processes, one per line and in the order of the lines,
  and waits for the same \<open>N\<close> processes in that order. Along its events no process is
  forked while another is outstanding, every wait is for the outstanding process, and no
  line is read while a process is outstanding. The input may end there, or with one more
  valid command line that has no newline: that line is read but not run, and the same
  holds of the \<open>N\<close> lines before it.
\<close>

theorem serial_session_one_process_at_a_time:
  assumes "\<forall>l \<in> set ls. valid_line l" and "tail = [] \<or> valid_line tail"
  shows "processCmds fuel e (fresh (unlines ls @ tail)) os False prompt w =
     Inr (\<lparr>buf = [], eofbit = True, failbit = (tail = [])\<rparr>,
          \<lparr>trace = trace w @ serial_run e os prompt (nforks w) ls @ [Write os prompt, Getline],
           nforks = nforks w + length ls\<rparr>)
     \<and> one_at_a_time None (serial_run e os prompt (nforks w) ls @ [Write os prompt, Getline])
     \<and> forks (serial_run e os prompt (nforks w) ls @ [Write os prompt, Getline]) =
           zip (map split ls) (launched_pids e (nforks w) ls)
     \<and> waits (serial_run e os prompt (nforks w) ls @ [Write os prompt, Getline]) =
           launched_pids e (nforks w) ls
     \<and> length (launched_pids e (nforks w) ls) = length ls"
  using serial_session_tail [OF assms]
  by (simp add: one_at_a_time_serial_run forks_serial_run waits_serial_run length_launched_pids
                forks_append waits_append)

text \<open>An instance with two commands.\<close>

theorem serial_session_one_process_at_a_time_witness:
  "processCmds 0 example_env (fresh (unlines [''sleep 1'', ''sleep 2''])) StdOut False ''> '' start =
     Inr (\<lparr>buf = [], eofbit = True, failbit = True\<rparr>,
          \<lparr>trace = [Write StdOut ''> '', Getline, Write StdOut ''Running: '', Write StdOut ''sleep'',
                    Write StdOut '' '', Write StdOut ''1'', Write StdOut [NL],
                    Fork [''sleep'', ''1''] 100, Wait 100,
                    Write StdOut ''Exit code: '', Write StdOut ''0'', Write StdOut [NL],
                    Write StdOut ''> '', Getline, Write StdOut ''Running: '', Write StdOut ''sleep'',
                    Write StdOut '' '', Write StdOut ''2'', Write StdOut [NL],
                    Fork [''sleep'', ''2''] 101, Wait 101,
                    Write StdOut ''Exit code: '', Write StdOut ''0'', Write StdOut [NL],
                    Write StdOut ''> '', Getline],
           nforks = 2\<rparr>)"
  using serial_session_one_process_at_a_time
          [of "[''sleep 1'', ''sleep 2'']" "[]" 0 example_env StdOut "''> ''" start]
  by (simp add: valid_line_sleep1 valid_line_sleep2 split_sleep1 split_sleep2 print_command_sleep1
                print_command_sleep2 show_int_0 example_env_def start_def)

text \<open>
  C5 as stated gives \<open>N\<close> fork and wait pairs for \<open>N\<close> valid command lines. On the two
  valid command lines \<open>sleep 1\<close> and \<open>sleep 2\<close>, the second without a newline, the serial
  session forks and waits once.
\<close>

theorem serial_session_unterminated_line_counterexample:
  "valid_line ''sleep 1'' \<and> valid_line ''sleep 2''
   \<and> processCmds 0 example_env (fresh (unlines [''sleep 1''] @ ''sleep 2'')) StdOut False ''> '' start =
     Inr (\<lparr>buf = [], eofbit = True, failbit = False\<rparr>,
          \<lparr>trace = [Write StdOut ''> '', Getline, Write StdOut ''Running: '', Write StdOut ''sleep'',
                    Write StdOut '' '', Write StdOut ''1'', Write StdOut [NL],
                    Fork [''sleep'', ''1''] 100, Wait 100,
                    Write StdOut ''Exit code: '', Write StdOut ''0'', Write StdOut [NL],
                    Write StdOut ''> '', Getline],
           nforks = 1\<rparr>)
   \<and> forks [Write StdOut ''> '', Getline, Write StdOut ''Running: '', Write StdOut ''sleep'',
                    Write StdOut '' '', Write StdOut ''1'', Write StdOut [NL],
                    Fork [''sleep'', ''1''] 100, Wait 100,
                    Write StdOut ''Exit code: '', Write StdOut ''0'', Write StdOut [NL],
                    Write StdOut ''> '', Getline]
       = [([''sleep'', ''1''], 100)]"
  using serial_session_tail [of "[''sleep 1'']" "''sleep 2''" 0 example_env StdOut "''> ''" start]
  by (simp add: valid_line_sleep1 valid_line_sleep2 split_sleep1 print_command_sleep1 show_int_0
                example_env_def start_def)

text \<open>
  C9. When the rest of the input is a valid command line without a final newline, the loop
  writes the prompt, reads the line (which sets \<open>eofbit\<close>) and leaves: the pending process
  ids are unchanged and nothing is forked, in either mode and whatever ran before.
\<close>

theorem unterminated_last_command_not_run:
  assumes "valid_line l"
  shows "processCmds_while fuel e (fresh l) os parMode prompt parPids w =
           Inr (\<lparr>buf = [], eofbit = True, failbit = False\<rparr>, parPids,
                emit [Write os prompt, Getline] w)
     \<and> processCmds fuel e (fresh l) os parMode prompt w =
           Inr (\<lparr>buf = [], eofbit = True, failbit = False\<rparr>, emit [Write os prompt, Getline] w)
     \<and> forks [Write os prompt, Getline] = []"
  by (simp add: processCmds.simps while_unterminated_command [OF assms])

text \<open>An instance: the input \<open>ls\<close> without newline.\<close>

theorem unterminated_last_command_not_run_witness:
  "processCmds 0 example_env (fresh ''ls'') StdOut False ''> '' start =
     Inr (\<lparr>buf = [], eofbit = True, failbit = False\<rparr>,
          \<lparr>trace = [Write StdOut ''> '', Getline], nforks = 0\<rparr>)"
  using unterminated_last_command_not_run [of "''ls''" 0 example_env StdOut False "''> ''" "[]" start]
  by (simp add: valid_line_ls emit_def start_def)

text \<open>
  C6. When the loop reads a line whose first word is \<open>SERIAL\<close> or \<open>PARALLEL\<close> and which
  has a second word, the file of that name is opened and a session of its own (with its
  own empty list of process ids) is run over it, writing to the standard output, in
  serial or parallel mode according to the keyword, with the empty prompt. When that
  session returns the loop is left: the stream of the enclosing session is returned as it
  was after the line with the keyword, so no further line of it is read, and its pending
  process ids are unchanged. The bound on the nesting is one more than that of the nested
  session.
\<close>

theorem nested_file_replaces_session:
  assumes "getline ins = (ins', Some l)" and "split l = kw # path # args"
    and "kw = ''SERIAL'' \<or> kw = ''PARALLEL''"
  shows "processCmds_while (Suc fuel) e ins os parMode prompt parPids w =
           (case processCmds fuel e (ifstream e path) StdOut (kw = ''PARALLEL'') []
                   (emit [Write os prompt, Getline, Open path] w) of
              Inl err \<Rightarrow> Inl err
            | Inr (in', w') \<Rightarrow> Inr (ins', parPids, w'))
     \<and> processCmds (Suc fuel) e ins os parMode prompt w =
           (case processCmds fuel e (ifstream e path) StdOut (kw = ''PARALLEL'') []
                   (emit [Write os prompt, Getline, Open path] w) of
              Inl err \<Rightarrow> Inl err
            | Inr (in', w') \<Rightarrow> Inr (ins', w'))"
  by (simp add: processCmds.simps [of "Suc fuel"] while_nested [OF assms] split: sum.splits)

text \<open>An instance: \<open>PARALLEL batch.txt\<close> as the first line of a serial session, with a
  further line \<open>ls\<close> that stays unread.\<close>

theorem nested_file_replaces_session_witness:
  "processCmds 1 batch_env (fresh (''PARALLEL batch.txt'' @ NL # unlines [''ls''])) StdOut False ''> '' start =
     Inr (fresh (unlines [''ls'']),
          \<lparr>trace = [Write StdOut ''> '', Getline, Open ''batch.txt'',
                    Write StdOut [], Getline, Write StdOut ''Running: '', Write StdOut ''sleep'',
                    Write StdOut '' '', Write StdOut ''1'', Write StdOut [NL],
                    Fork [''sleep'', ''1''] 100,
                    Write StdOut [], Getline, Write StdOut ''Running: '', Write StdOut ''sleep'',
                    Write StdOut '' '', Write StdOut ''2'', Write StdOut [NL],
                    Fork [''sleep'', ''2''] 101,
                    Write StdOut [], Getline,
                    Waitpid 100, Write StdOut ''Exit code: '', Write StdOut ''0'', Write StdOut [NL],
                    Waitpid 101, Write StdOut ''Exit code: '', Write StdOut ''0'', Write StdOut [NL]],
           nforks = 2\<rparr>)"
proof -
  have g: "getline (fresh (''PARALLEL batch.txt'' @ NL # unlines [''ls''])) =
             (fresh (unlines [''ls'']), Some ''PARALLEL batch.txt'')"
    by (rule getline_line) simp
  have v: "\<forall>l \<in> set [''sleep 1'', ''sleep 2'']. valid_line l"
    by (simp add: valid_line_sleep1 valid_line_sleep2)
  have o: "ifstream batch_env ''batch.txt'' = fresh (unlines [''sleep 1'', ''sleep 2''])"
    by (simp add: ifstream_def batch_env_def)
  have e1: "forkNexec_pid batch_env k a = 100 + int k" for k a
    by (simp add: batch_env_def)
  have e2: "waitpid_status batch_env pid = 0" for pid
    by (simp add: batch_env_def)
  show ?thesis
    using nested_file_replaces_session [OF g split_PARALLEL_batch, of 0 batch_env StdOut False "''> ''" "[]" start]
    by (simp add: o parallel_session [OF v] emit_def split_sleep1 split_sleep2 print_command_sleep1
                  print_command_sleep2 show_int_0 e1 e2 start_def)
qed

text \<open>
  C8. When the file named after \<open>SERIAL\<close> or \<open>PARALLEL\<close> cannot be opened, the nested
  session returns at once: it writes its empty prompt, its first read fails, and nothing
  is forked. The enclosing loop and session return normally, with only these events added.
\<close>

theorem unopened_nested_file_is_empty_session:
  assumes "getline ins = (ins', Some l)" and "split l = kw # path # args"
    and "kw = ''SERIAL'' \<or> kw = ''PARALLEL''" and "files e path = None"
  shows "processCmds fuel e (ifstream e path) StdOut (kw = ''PARALLEL'') [] w1 =
           Inr (\<lparr>buf = [], eofbit = False, failbit = True\<rparr>, emit [Write StdOut [], Getline] w1)
     \<and> processCmds_while (Suc fuel) e ins os parMode prompt parPids w =
           Inr (ins', parPids, emit [Write os prompt, Getline, Open path, Write StdOut [], Getline] w)
     \<and> processCmds (Suc fuel) e ins os parMode prompt w =
           Inr (ins', emit [Write os prompt, Getline, Open path, Write StdOut [], Getline] w)
     \<and> forks [Write os prompt, Getline, Open path, Write StdOut [], Getline] = []"
  by (simp add: processCmds.simps [of "Suc fuel"] while_nested [OF assms(1,2,3)]
                session_unopened [OF assms(4)] emit_def)

text \<open>An instance: \<open>SERIAL nofile\<close> where no file can be opened.\<close>

theorem unopened_nested_file_is_empty_session_witness:
  "processCmds 1 example_env (fresh (''SERIAL nofile'' @ NL # unlines [''ls''])) StdOut False ''> '' start =
     Inr (fresh (unlines [''ls'']),
          \<lparr>trace = [Write StdOut ''> '', Getline, Open ''nofile'', Write StdOut [], Getline],
           nforks = 0\<rparr>)"
proof -
  have g: "getline (fresh (''SERIAL nofile'' @ NL # unlines [''ls''])) =
             (fresh (unlines [''ls'']), Some ''SERIAL nofile'')"
    by (rule getline_line) simp
  have f: "files example_env ''nofile'' = None"
    by (simp add: example_env_def)
  show ?thesis
    using unopened_nested_file_is_empty_session
            [OF g split_SERIAL_nofile _ f, of 0 start StdOut False "''> ''" "[]" start]
    by (simp add: emit_def start_def)
qed

text \<open>
  C4. A line that consists of the keyword \<open>SERIAL\<close> or \<open>PARALLEL\<close> alone makes
  \<open>processFirstWord\<close> read \<open>line[1]\<close> of a vector of length one: the session does not go
  on to the next line, whatever follows.
\<close>

theorem missing_path_reads_out_of_range:
  "processCmds fuel e (fresh (''SERIAL'' @ NL # rest)) os parMode prompt w = Inl OutOfRange
   \<and> processCmds fuel e (fresh (''PARALLEL'' @ NL # rest)) os parMode prompt w = Inl OutOfRange"
proof -
  have s: "getline (fresh (''SERIAL'' @ NL # rest)) = (fresh rest, Some ''SERIAL'')"
    by (rule getline_line) simp
  have p: "getline (fresh (''PARALLEL'' @ NL # rest)) = (fresh rest, Some ''PARALLEL'')"
    by (rule getline_line) simp
  show ?thesis
    by (simp only: processCmds.simps while_missing_path [OF s split_SERIAL]
                   while_missing_path [OF p split_PARALLEL] sum.case simp_thms)
qed

text \<open>
  C3. For the command \<open>echo a b a\<close> the printing loop compares each word with the last
  word, so the space after the first \<open>a\<close> is left out: the text written is
  \<open>Running: echo ab a\<close>, in serial and in parallel mode, while the words joined by single
  spaces are \<open>echo a b a\<close>.
\<close>

theorem running_line_loses_space_before_repeated_last_word:
  "written StdOut (trace (runSerialCommand example_env StdOut (split ''echo a b a'') start)) =
     ''Running: echo ab a'' @ [NL] @ ''Exit code: 0'' @ [NL]
   \<and> written StdOut (trace (snd (runParallelCommand example_env StdOut (split ''echo a b a'') [] start))) =
     ''Running: echo ab a'' @ [NL]
   \<and> join_words (split ''echo a b a'') = ''echo a b a''
   \<and> written StdOut (print_command StdOut (split ''echo a b a'')) \<noteq>
     ''Running: '' @ join_words (split ''echo a b a'') @ [NL]"
  by (simp add: split_echo runSerialCommand_world runParallelCommand_world print_command_def
                show_int_0 example_env_def start_def)

text \<open>
  C10. For a session whose output stream is not the standard output, the events it adds
  split at the first hand-over (the opening of a nested file, or the first \<open>waitpid\<close> of
  the drain): the events before it, which are the prompts and the \<open>Running\<close> and
  \<open>Exit code\<close> lines of the session itself, write to the session's stream only; the events
  from it on, which are those of a nested session and of the drain, write to the standard
  output only, so none of their text reaches the session's stream.
\<close>

theorem drain_and_nested_output_go_to_stdout:
  assumes "os \<noteq> StdOut"
    and "processCmds fuel e ins os parMode prompt w = Inr (ins', w')"
  shows "\<exists>evs. trace w' = trace w @ evs
           \<and> writes_to os (own_events evs) \<and> writes_to StdOut (later_events evs)
           \<and> written os evs = written os (own_events evs)
           \<and> written os (later_events evs) = []"
proof -
  have "\<exists>evs. trace w' = trace w @ evs \<and> sinks_kept os evs"
    by (rule session_sinks_kept [OF _ assms(2)]) (rule processFirstWord_events)
  then obtain evs
    where evs: "trace w' = trace w @ evs" "sinks_kept os evs"
    by blast
  from evs(2) have o: "writes_to os (own_events evs)" and l: "writes_to StdOut (later_events evs)"
    by (simp_all add: sinks_kept_def)
  from written_other_sink [OF l assms(1)] have n: "written os (later_events evs) = []" .
  have "evs = own_events evs @ later_events evs"
    by (simp add: own_events_def later_events_def)
  then have "written os evs = written os (own_events evs) @ written os (later_events evs)"
    by (metis written_append)
  with n have "written os evs = written os (own_events evs)"
    by simp
  with evs(1) o l n show ?thesis
    by blast
qed

text \<open>An instance: a parallel session over \<open>sleep 1\<close> writing to another stream.\<close>

theorem drain_and_nested_output_go_to_stdout_witness:
  "writes_to (Sink 0)
     (own_events [Write (Sink 0) ''> '', Getline, Write (Sink 0) ''Running: '', Write (Sink 0) ''sleep'',
                  Write (Sink 0) '' '', Write (Sink 0) ''1'', Write (Sink 0) [NL],
                  Fork [''sleep'', ''1''] 100, Write (Sink 0) ''> '', Getline,
                  Waitpid 100, Write StdOut ''Exit code: '', Write StdOut ''0'', Write StdOut [NL]])
   \<and> writes_to StdOut
     (later_events [Write (Sink 0) ''> '', Getline, Write (Sink 0) ''Running: '', Write (Sink 0) ''sleep'',
                  Write (Sink 0) '' '', Write (Sink 0) ''1'', Write (Sink 0) [NL],
                  Fork [''sleep'', ''1''] 100, Write (Sink 0) ''> '', Getline,
                  Waitpid 100, Write StdOut ''Exit code: '', Write StdOut ''0'', Write StdOut [NL]])
   \<and> written (Sink 0)
     (later_events [Write (Sink 0) ''> '', Getline, Write (Sink 0) ''Running: '', Write (Sink 0) ''sleep'',
                  Write (Sink 0) '' '', Write (Sink 0) ''1'', Write (Sink 0) [NL],
                  Fork [''sleep'', ''1''] 100, Write (Sink 0) ''> '', Getline,
                  Waitpid 100, Write StdOut ''Exit code: '', Write StdOut ''0'', Write StdOut [NL]]) = []"
proof -
  let ?T = "[Write (Sink 0) ''> '', Getline, Write (Sink 0) ''Running: '', Write (Sink 0) ''sleep'',
             Write (Sink 0) '' '', Write (Sink 0) ''1'', Write (Sink 0) [NL],
             Fork [''sleep'', ''1''] 100, Write (Sink 0) ''> '', Getline,
             Waitpid 100, Write StdOut ''Exit code: '', Write StdOut ''0'', Write StdOut [NL]]"
  have v: "\<forall>l \<in> set [''sleep 1'']. valid_line l"
    by (simp add: valid_line_sleep1)
  have run: "processCmds 0 example_env (fresh (unlines [''sleep 1''])) (Sink 0) True ''> '' start =
               Inr (\<lparr>buf = [], eofbit = True, failbit = True\<rparr>, \<lparr>trace = ?T, nforks = 1\<rparr>)"
    by (simp add: parallel_session [OF v] split_sleep1 print_command_sleep1 show_int_0
                  example_env_def start_def)
  have os: "Sink 0 \<noteq> StdOut"
    by simp
  from drain_and_nested_output_go_to_stdout [OF os run] obtain evs
    where evs: "trace \<lparr>trace = ?T, nforks = 1\<rparr> = trace start @ evs"
      "writes_to (Sink 0) (own_events evs)" "writes_to StdOut (later_events evs)"
      "written (Sink 0) (later_events evs) = []"
    by blast
  from evs(1) have "evs = ?T"
    by (simp add: start_def)
  with evs(2,3,4) show ?thesis
    by (simp only:)
qed

text \<open>
  C7. For a well-formed line, with any whitespace before it, \<open>split\<close> returns the texts
  of its words in order: bare tokens as they are, quoted texts without their delimiters,
  however long the runs of whitespace between them; so joining the result with single
  spaces gives the words of the line joined with single spaces. For a line of whitespace
  only, and for the empty line, the result is empty.
\<close>

theorem split_gives_the_words_of_the_line:
  assumes "list_all isspace pre" and "wf_items items"
  shows "split (pre @ render_line items) = map (\<lambda>(w, sep). text_of w) items
     \<and> join_words (split (pre @ render_line items)) = join_words (map (\<lambda>(w, sep). text_of w) items)
     \<and> split pre = []"
  using split_items [OF assms] split_while_space [OF assms(1), of "[]"]
  by (simp add: split_def)

text \<open>An instance: two leading spaces, a quoted word with a space in it, runs of spaces.\<close>

theorem split_gives_the_words_of_the_line_witness:
  "split (''  echo '' @ [DQUOTE] @ ''a b'' @ [DQUOTE] @ ''   c'') = [''echo'', ''a b'', ''c'']
   \<and> join_words (split (''  echo '' @ [DQUOTE] @ ''a b'' @ [DQUOTE] @ ''   c'')) = ''echo a b c''
   \<and> split ''  '' = []"
  using split_gives_the_words_of_the_line
          [of "''  ''" "[(Bare ''echo'', '' ''), (Quoted ''a b'', ''   ''), (Bare ''c'', [])]"]
  by (simp add: isspace_def)

end
